theory Spec2Isabelle
  imports Main
begin

section \<open>Runes and UTF-8 decoding\<close>

text \<open>
  A Go string is a sequence of bytes (\<open>string\<close> = \<open>char list\<close>); \<open>range\<close> over a string and
  \<open>utf8.DecodeRuneInString\<close> decode it rune by rune. A rune is an \<open>int32\<close>; the lexer uses
  \<open>-1\<close> for end of input.
\<close>

type_synonym rune = int

abbreviation (input) eof :: rune where "eof \<equiv> - 1"

definition RuneError :: rune where
  "RuneError = 65533"

definition byte :: "char \<Rightarrow> nat" where
  "byte c = of_char c"

text \<open>
  \<open>utf8.DecodeRuneInString\<close>: the rune at the head of the string and its width in bytes.
  An invalid or truncated encoding yields \<open>(RuneError, 1)\<close>, the empty string
  \<open>(RuneError, 0)\<close>. The accept ranges of the second byte are those of Go's table:
  \<open>E0: A0..BF\<close>, \<open>ED: 80..9F\<close>, \<open>F0: 90..BF\<close>, \<open>F4: 80..8F\<close>, otherwise \<open>80..BF\<close>.
\<close>

fun decodeRune :: "string \<Rightarrow> rune \<times> nat" where
  "decodeRune [] = (RuneError, 0)"
| "decodeRune (c0 # cs) =
    (let s0 = byte c0 in
     if s0 < 128 then (int s0, 1)
     else if s0 < 194 \<or> 244 < s0 then (RuneError, 1)
     else
       let sz = (if s0 < 224 then 2 else if s0 < 240 then 3 else (4::nat));
           lo = (if s0 = 224 then 160 else if s0 = 240 then 144 else (128::nat));
           hi = (if s0 = 237 then 159 else if s0 = 244 then 143 else (191::nat))
       in if length cs + 1 < sz then (RuneError, 1)
          else let s1 = byte (cs ! 0) in
            if s1 < lo \<or> hi < s1 then (RuneError, 1)
            else if sz \<le> 2 then (int ((s0 mod 32) * 64 + s1 mod 64), 2)
            else let s2 = byte (cs ! 1) in
              if s2 < 128 \<or> 191 < s2 then (RuneError, 1)
              else if sz \<le> 3 then
                (int ((s0 mod 16) * 4096 + (s1 mod 64) * 64 + s2 mod 64), 3)
              else let s3 = byte (cs ! 2) in
                if s3 < 128 \<or> 191 < s3 then (RuneError, 1)
                else (int ((s0 mod 8) * 262144 + (s1 mod 64) * 4096
                            + (s2 mod 64) * 64 + s3 mod 64), 4))"

text \<open>
  \<open>for i, r = range data\<close>: the pairs (byte index, rune) in order. The first argument is
  the byte index of the head of the string.
\<close>

fun runes :: "nat \<Rightarrow> string \<Rightarrow> (nat \<times> rune) list" where
  "runes i [] = []"
| "runes i (c # cs) =
    (let (r, w) = decodeRune (c # cs) in (i, r) # runes (i + w) (drop (w - 1) cs))"

text \<open>
  \<open>utf8.DecodeLastRuneInString\<close>, of which the lexer uses the size only: step back to a
  rune start within the last four bytes, decode forward, and accept the rune when it ends
  at the end of the string.
\<close>

definition runeStart :: "char \<Rightarrow> bool" where
  "runeStart c = (byte c div 64 \<noteq> 2)"

fun backToStart :: "string \<Rightarrow> nat \<Rightarrow> nat \<Rightarrow> nat" where
  "backToStart s lim st =
     (if st < lim then st
      else if runeStart (s ! st) then st
      else (case st of 0 \<Rightarrow> 0 | Suc k \<Rightarrow> backToStart s lim k))"

definition decodeLastRune :: "string \<Rightarrow> rune \<times> nat" where
  "decodeLastRune s =
     (let e = length s in
      if e = 0 then (RuneError, 0)
      else if byte (s ! (e - 1)) < 128 then (int (byte (s ! (e - 1))), 1)
      else if e = 1 then (RuneError, 1)
      else
        let lim = e - 4;
            st = backToStart s lim (e - 2);
            (r, sz) = decodeRune (drop st s)
        in if st + sz \<noteq> e then (RuneError, 1) else (r, sz))"

text \<open>\<open>utf8.RuneLen\<close> on a rune that came out of decoding (never a surrogate, never out of range).\<close>

definition runeLen :: "rune \<Rightarrow> nat" where
  "runeLen r = (if r < 128 then 1 else if r < 2048 then 2 else if r < 65536 then 3 else 4)"

text \<open>
  \<open>isAlphaNumeric\<close>: underscore, \<open>unicode.IsLetter\<close> or \<open>unicode.IsDigit\<close>. On ASCII the two
  tables are the letters and the decimal digits; beyond ASCII the tables of Go's
  \<open>unicode\<close> package are the parameter \<open>U\<close> (\<open>U r\<close> is "letter or digit").
\<close>

definition isAlphaNumeric :: "(rune \<Rightarrow> bool) \<Rightarrow> rune \<Rightarrow> bool" where
  "isAlphaNumeric U r =
     (r = 95 \<or> (65 \<le> r \<and> r \<le> 90) \<or> (97 \<le> r \<and> r \<le> 122) \<or> (48 \<le> r \<and> r \<le> 57)
      \<or> (128 \<le> r \<and> U r))"

text \<open>\<open>strings.ContainsRune\<close> for the ASCII sets the lexer passes.\<close>

definition containsRune :: "string \<Rightarrow> rune \<Rightarrow> bool" where
  "containsRune valid r = (r \<in> set (map (\<lambda>c. int (byte c)) valid))"

text \<open>\<open>strings.IndexByte\<close>; \<open>None\<close> is Go's \<open>-1\<close>.\<close>

fun indexByte :: "string \<Rightarrow> char \<Rightarrow> nat option" where
  "indexByte [] c = None"
| "indexByte (x # xs) c =
     (if x = c then Some 0 else (case indexByte xs c of None \<Rightarrow> None | Some i \<Rightarrow> Some (Suc i)))"

text \<open>The slice \<open>s[a:b]\<close>.\<close>

definition slice :: "string \<Rightarrow> nat \<Rightarrow> nat \<Rightarrow> string" where
  "slice s a b = take (b - a) (drop a s)"

section \<open>Items and the lexer state\<close>

datatype itemType =
    itemError | itemBool | itemChar | itemCharConstant | itemComment | itemComplex
  | itemAssign | itemDeclare | itemEOF | itemField | itemIdentifier | itemLeftDelim
  | itemLeftParen | itemNumber | itemPipe | itemRawString | itemRightDelim
  | itemRightParen | itemSpace | itemString | itemVariable | itemKeyword | itemBlock
  | itemBreak | itemContinue | itemDot | itemDefine | itemElse | itemEnd | itemIf
  | itemNil | itemRange | itemTemplate | itemWith

text \<open>
  The arguments of \<open>fmt.Sprintf\<close> in \<open>errorf\<close> are kept unformatted: an error item carries
  the format string in \<open>val\<close> and the arguments in \<open>args\<close>; every other item has no
  arguments.
\<close>

datatype fmtArg = ArgRune rune | ArgString string

record item =
  ityp :: itemType
  ipos :: nat
  val :: string
  args :: "fmtArg list"
  iline :: int
  notEmpty :: bool

text \<open>The zero value of \<open>item\<close>, what a named result holds before it is assigned.\<close>

definition zeroItem :: item where
  "zeroItem = \<lparr>ityp = itemError, ipos = 0, val = [], args = [], iline = 0, notEmpty = False\<rparr>"

text \<open>The state functions that are ever stored as the next state; \<open>None\<close> is \<open>nil\<close>.\<close>

datatype stateFn = StWhitespace | StInsideAction | StInActionSpace

record lexer =
  name :: string
  input :: string
  emitComment :: bool
  pos :: nat
  start :: nat
  width :: nat
  parenDepth :: int
  line :: int
  startLine :: int
  nextState :: "stateFn option"

type_synonym result = "item \<times> stateFn option \<times> lexer"

section \<open>Primitives of the lexer\<close>

text \<open>
  Positions are natural numbers. The source indexes and slices the input only under a test
  of its length, or at a byte it has just read, and it moves \<open>pos\<close> back only by the width
  of the rune read last, so the definitions have no branch for an index out of range.
\<close>

definition nextRune :: "lexer \<Rightarrow> rune \<times> lexer" where
  "nextRune l =
     (if pos l \<ge> length (input l) then (eof, l\<lparr>width := 0\<rparr>)
      else
        let (r, w) = decodeRune (drop (pos l) (input l));
            l1 = l\<lparr>width := w, pos := pos l + w\<rparr>
        in (r, if r = 10 then l1\<lparr>line := line l1 + 1\<rparr> else l1))"

definition peek :: "lexer \<Rightarrow> rune" where
  "peek l = (case runes 0 (drop (pos l) (input l)) of [] \<Rightarrow> eof | (i, r) # rest \<Rightarrow> r)"

text \<open>\<open>backup\<close> is only called right after \<open>next\<close>, so \<open>width \<le> pos\<close> there.\<close>

definition backup :: "lexer \<Rightarrow> lexer" where
  "backup l =
     (let l1 = l\<lparr>pos := pos l - width l\<rparr> in
      if width l1 = 1 \<and> input l1 ! pos l1 = CHR 0x0A then l1\<lparr>line := line l1 - 1\<rparr> else l1)"

definition emit :: "itemType \<Rightarrow> lexer \<Rightarrow> item \<times> lexer" where
  "emit t l =
     (\<lparr>ityp = t, ipos = start l, val = slice (input l) (start l) (pos l), args = [],
       iline = startLine l, notEmpty = True\<rparr>,
      l\<lparr>start := pos l, startLine := line l\<rparr>)"

text \<open>\<open>return l.emit(t), next\<close>.\<close>

definition emitThen :: "itemType \<Rightarrow> stateFn option \<Rightarrow> lexer \<Rightarrow> result" where
  "emitThen t nxt l = (fst (emit t l), nxt, snd (emit t l))"

definition accept :: "string \<Rightarrow> lexer \<Rightarrow> bool \<times> lexer" where
  "accept valid l =
     (let (r, l1) = nextRune l in
      if containsRune valid r then (True, l1) else (False, backup l1))"

function acceptRun :: "string \<Rightarrow> lexer \<Rightarrow> lexer" where
  "acceptRun valid l =
     (let (r, l1) = nextRune l in
      if containsRune valid r then acceptRun valid l1 else backup l1)"
  by pat_completeness auto

lemma decodeRune_width_pos: "s \<noteq> [] \<Longrightarrow> 0 < snd (decodeRune s)"
  by (cases s) (simp_all add: Let_def)

lemma containsRune_nonneg: "containsRune valid r \<Longrightarrow> 0 \<le> r"
  by (auto simp: containsRune_def)

lemma nextRune_advances:
  assumes "nextRune l = (r, l1)" and "r \<noteq> eof"
  shows "pos l < length (input l) \<and> pos l < pos l1 \<and> input l1 = input l"
proof -
  have lt: "pos l < length (input l)"
    using assms by (auto simp: nextRune_def split: if_splits)
  then have "drop (pos l) (input l) \<noteq> []" by simp
  then have "0 < snd (decodeRune (drop (pos l) (input l)))"
    by (rule decodeRune_width_pos)
  with lt assms show ?thesis
    by (auto simp: nextRune_def Let_def split: if_splits prod.splits)
qed

termination acceptRun
proof (relation "measure (\<lambda>(valid, l). length (input l) - pos l)")
  show "wf (measure (\<lambda>(valid, l). length (input l) - pos l))" by simp
next
  fix valid l x r l1
  assume "x = nextRune l" and "(r, l1) = x" and "containsRune valid r"
  then have n: "nextRune l = (r, l1)" and "r \<noteq> eof"
    using containsRune_nonneg [of valid r] by auto
  from nextRune_advances [OF this]
  show "((valid, l1), (valid, l)) \<in> measure (\<lambda>(valid, l). length (input l) - pos l)"
    by (auto intro: diff_less_mono2)
qed

definition errorf :: "lexer \<Rightarrow> string \<Rightarrow> fmtArg list \<Rightarrow> item" where
  "errorf l fmt as =
     \<lparr>ityp = itemError, ipos = start l, val = fmt, args = as, iline = startLine l,
      notEmpty = True\<rparr>"

definition atTerminator :: "lexer \<Rightarrow> bool" where
  "atTerminator l =
     (if pos l \<ge> length (input l) then True
      else input l ! pos l \<in> set [CHR ''.'', CHR '','', CHR ''|'', CHR '':'', CHR '')'', CHR ''('',
             CHR '' '', CHR 0x09, CHR 0x0D, CHR 0x0A, CHR '';''])"

section \<open>The state functions\<close>

text \<open>
  Each loop \<open>for i, r = range data\<close> is a recursion over \<open>runes 0 data\<close> that carries the
  loop variables \<open>i\<close> and \<open>r\<close>: they are assigned at every iteration and keep their last
  values when the loop ends.
\<close>

fun wsLoop :: "(nat \<times> rune) list \<Rightarrow> nat \<Rightarrow> rune \<Rightarrow> int \<Rightarrow> nat \<times> rune \<times> int" where
  "wsLoop [] i r ln = (i, r, ln)"
| "wsLoop ((j, c) # rest) i r ln =
     (if c = 32 \<or> c = 13 \<or> c = 9 then wsLoop rest j c ln
      else if c = 10 then wsLoop rest j c (ln + 1)
      else (j, c, ln))"

definition lexComment :: "lexer \<Rightarrow> result" where
  "lexComment l =
     (let l1 = (case indexByte (drop (pos l) (input l)) (CHR 0x0A) of
                  None \<Rightarrow> l\<lparr>pos := length (input l)\<rparr>
                | Some i \<Rightarrow> l\<lparr>width := 1, pos := pos l + (i + 1), line := line l + 1\<rparr>)
      in if emitComment l1 then
           (let (ret, l2) = emit itemComment l1 in
            (ret\<lparr>ipos := ipos ret + 1, val := drop 1 (val ret)\<rparr>, Some StWhitespace, l2))
         else (zeroItem, Some StWhitespace, l1\<lparr>start := pos l1, startLine := line l1\<rparr>))"

definition lexWhitespace :: "lexer \<Rightarrow> result" where
  "lexWhitespace l =
     (let data = drop (pos l) (input l);
          (i, r, ln) = wsLoop (runes 0 data) 0 eof (line l);
          l1 = l\<lparr>line := ln\<rparr>;
          l2 = (if r = eof then l1\<lparr>width := 0\<rparr>
                else if i \<noteq> 0 then l1\<lparr>pos := pos l1 + i, width := 1\<rparr>
                else l1);
          l3 = l2\<lparr>start := pos l2, startLine := line l2\<rparr>
      in if r = 32 \<or> r = 13 \<or> r = 9 \<or> r = 10 \<or> r = eof then emitThen itemEOF None l3
         else if r = 35 then lexComment l3
         else emitThen itemLeftDelim (Some StInsideAction) l3)"

fun alnumLoop :: "(rune \<Rightarrow> bool) \<Rightarrow> (nat \<times> rune) list \<Rightarrow> nat \<Rightarrow> rune \<Rightarrow> nat \<times> rune" where
  "alnumLoop U [] i r = (i, r)"
| "alnumLoop U ((j, c) # rest) i r =
     (if \<not> isAlphaNumeric U c then (j, c) else alnumLoop U rest j c)"

definition lexIdentifier :: "(rune \<Rightarrow> bool) \<Rightarrow> lexer \<Rightarrow> result" where
  "lexIdentifier U l =
     (let data = drop (pos l) (input l);
          (i0, r) = alnumLoop U (runes 0 data) 0 0;
          (i, l1) = (if isAlphaNumeric U r then (length data, l\<lparr>width := runeLen r\<rparr>)
                     else (i0, l\<lparr>width := snd (decodeLastRune (take i0 data))\<rparr>));
          l2 = l1\<lparr>pos := pos l1 + i\<rparr>;
          w = take i data
      in if \<not> atTerminator l2 then (errorf l2 ''bad character %#U'' [ArgRune r], None, l2)
         else if w = ''.'' then emitThen itemDot (Some StInsideAction) l2
         else if w = ''block'' then emitThen itemBlock (Some StInsideAction) l2
         else if w = ''break'' then emitThen itemBreak (Some StInsideAction) l2
         else if w = ''continue'' then emitThen itemContinue (Some StInsideAction) l2
         else if w = ''define'' then emitThen itemDefine (Some StInsideAction) l2
         else if w = ''else'' then emitThen itemElse (Some StInsideAction) l2
         else if w = ''end'' then emitThen itemEnd (Some StInsideAction) l2
         else if w = ''if'' then emitThen itemIf (Some StInsideAction) l2
         else if w = ''range'' then emitThen itemRange (Some StInsideAction) l2
         else if w = ''nil'' then emitThen itemNil (Some StInsideAction) l2
         else if w = ''template'' then emitThen itemTemplate (Some StInsideAction) l2
         else if w = ''with'' then emitThen itemWith (Some StInsideAction) l2
         else if w = ''true'' \<or> w = ''false'' then emitThen itemBool (Some StInsideAction) l2
         else if data ! 0 = CHR ''.'' then emitThen itemField (Some StInsideAction) l2
         else emitThen itemIdentifier (Some StInsideAction) l2)"

definition lexFieldOrVariable :: "(rune \<Rightarrow> bool) \<Rightarrow> lexer \<Rightarrow> itemType \<Rightarrow> result" where
  "lexFieldOrVariable U l t =
     (if atTerminator l then
        (if t = itemVariable then emitThen itemVariable (Some StInsideAction) l
         else emitThen itemDot (Some StInsideAction) l)
      else
        let data = drop (pos l) (input l);
            (i0, r) = alnumLoop U (runes 0 data) 0 0;
            (i, l1) = (if isAlphaNumeric U r then (length data, l\<lparr>width := runeLen r\<rparr>)
                       else (i0, l\<lparr>width := snd (decodeLastRune (take i0 data))\<rparr>));
            l2 = l1\<lparr>pos := pos l1 + i\<rparr>
        in if \<not> atTerminator l2 then (errorf l2 ''bad character %#U'' [ArgRune r], None, l2)
           else emitThen t (Some StInsideAction) l2)"

definition lexField :: "(rune \<Rightarrow> bool) \<Rightarrow> lexer \<Rightarrow> result" where
  "lexField U l = lexFieldOrVariable U l itemField"

definition lexVariable :: "(rune \<Rightarrow> bool) \<Rightarrow> lexer \<Rightarrow> result" where
  "lexVariable U l =
     (if atTerminator l then emitThen itemVariable (Some StInsideAction) l
      else lexFieldOrVariable U l itemVariable)"

text \<open>
  The loop of \<open>lexChar\<close>: \<open>Some i\<close> when the closing quote is found at index \<open>i\<close>,
  \<open>None\<close> when the scan jumps to \<open>ERR\<close> or runs off the data.
\<close>

fun charLoop :: "string \<Rightarrow> (nat \<times> rune) list \<Rightarrow> nat option" where
  "charLoop data [] = None"
| "charLoop data ((j, c) # rest) =
     (if c = 92 then
        (if j \<noteq> length data - 1 \<and> data ! (j + 1) \<noteq> CHR 0x0A then charLoop data rest
         else None)
      else if c = eof \<or> c = 10 then None
      else if c = 39 then
        (if j = 1 \<and> data ! 0 = CHR 0x5C then charLoop data rest else Some j)
      else charLoop data rest)"

definition lexChar :: "lexer \<Rightarrow> result" where
  "lexChar l =
     (let data = drop (pos l) (input l) in
      case charLoop data (runes 0 data) of
        Some i \<Rightarrow> emitThen itemCharConstant (Some StInsideAction)
                    (l\<lparr>width := 1, pos := pos l + i + 1\<rparr>)
      | None \<Rightarrow> (errorf l ''unterminated character constant'' [], None, l))"

fun quoteLoop :: "string \<Rightarrow> (nat \<times> rune) list \<Rightarrow> nat option" where
  "quoteLoop data [] = None"
| "quoteLoop data ((j, c) # rest) =
     (if c = 92 then
        (if j \<noteq> length data - 1 \<and> data ! (j + 1) \<noteq> CHR 0x0A then quoteLoop data rest
         else None)
      else if c = eof \<or> c = 10 then None
      else if c = 34 then
        (if j \<noteq> 0 \<and> data ! (j - 1) = CHR 0x5C then quoteLoop data rest else Some j)
      else quoteLoop data rest)"

definition lexQuote :: "lexer \<Rightarrow> result" where
  "lexQuote l =
     (let data = drop (pos l) (input l) in
      case quoteLoop data (runes 0 data) of
        Some i \<Rightarrow> emitThen itemString (Some StInsideAction)
                    (l\<lparr>width := 1, pos := pos l + i + 1\<rparr>)
      | None \<Rightarrow> (errorf l ''unterminated quoted string'' [], None, l))"

text \<open>The loop of \<open>lexRawQuote\<close>: the index reached, \<open>hasEnd\<close>, and the line counter.\<close>

fun rawLoop :: "(nat \<times> rune) list \<Rightarrow> nat \<Rightarrow> int \<Rightarrow> nat \<times> bool \<times> int" where
  "rawLoop [] i ln = (i, False, ln)"
| "rawLoop ((j, c) # rest) i ln =
     (if c = 10 then rawLoop rest j (ln + 1)
      else if c = 96 then (j, True, ln)
      else rawLoop rest j ln)"

definition lexRawQuote :: "lexer \<Rightarrow> result" where
  "lexRawQuote l =
     (let (i, hasEnd, ln) = rawLoop (runes 0 (drop (pos l) (input l))) 0 (line l);
          l1 = l\<lparr>line := ln\<rparr>
      in if \<not> hasEnd then (errorf l1 ''unterminated raw quoted string'' [], None, l1)
         else emitThen itemRawString (Some StInsideAction)
                (l1\<lparr>width := 1, pos := pos l1 + i + 1\<rparr>))"

definition scanNumber :: "(rune \<Rightarrow> bool) \<Rightarrow> lexer \<Rightarrow> bool \<times> lexer" where
  "scanNumber U l =
     (let l1 = snd (accept ''+-'' l);
          (b0, l2) = accept ''0'' l1;
          (digits, l3) =
            (if b0 then
               (let (bx, lx) = accept ''xX'' l2 in
                if bx then (''0123456789abcdefABCDEF_'', lx)
                else let (bo, lo) = accept ''oO'' lx in
                  if bo then (''01234567_'', lo)
                  else let (bb, lb) = accept ''bB'' lo in
                    if bb then (''01_'', lb) else (''0123456789_'', lb))
             else (''0123456789_'', l2));
          l4 = acceptRun digits l3;
          (bd, l5) = accept ''.'' l4;
          l6 = (if bd then acceptRun digits l5 else l5);
          l7 = (if length digits = 10 + 1 then
                  (let (be, le) = accept ''eE'' l6 in
                   if be then acceptRun ''0123456789_'' (snd (accept ''+-'' le)) else le)
                else l6);
          l8 = (if length digits = 16 + 6 + 1 then
                  (let (bp, lp) = accept ''pP'' l7 in
                   if bp then acceptRun ''0123456789_'' (snd (accept ''+-'' lp)) else lp)
                else l7);
          l9 = snd (accept ''i'' l8)
      in if isAlphaNumeric U (peek l9) then (False, snd (nextRune l9)) else (True, l9))"

definition lexNumber :: "(rune \<Rightarrow> bool) \<Rightarrow> lexer \<Rightarrow> result" where
  "lexNumber U l =
     (let (ok, l1) = scanNumber U l in
      if \<not> ok then
        (errorf l1 ''bad number syntax: %q'' [ArgString (slice (input l1) (start l1) (pos l1))],
         None, l1)
      else
        let sign = peek l1 in
        if sign = 43 \<or> sign = 45 then
          (let (ok2, l2) = scanNumber U l1 in
           if \<not> ok2 \<or> input l2 ! (pos l2 - 1) \<noteq> CHR ''i'' then
             (errorf l2 ''bad number syntax: %q''
                [ArgString (slice (input l2) (start l2) (pos l2))], None, l2)
           else emitThen itemComplex (Some StInsideAction) l2)
        else emitThen itemNumber (Some StInsideAction) l1)"

text \<open>
  The loop of \<open>lexInActionSpace\<close>, carrying \<open>hasInlineBackslash\<close>, \<open>emitRightDelim\<close> and
  the line counter. A newline with no pending backslash sets \<open>emitRightDelim\<close>, steps
  \<open>i\<close> past the newline and leaves the loop.
\<close>

fun spLoop ::
  "(nat \<times> rune) list \<Rightarrow> nat \<Rightarrow> rune \<Rightarrow> bool \<Rightarrow> bool \<Rightarrow> int \<Rightarrow> nat \<times> rune \<times> bool \<times> int" where
  "spLoop [] i r hb erd ln = (i, r, erd, ln)"
| "spLoop ((j, c) # rest) i r hb erd ln =
     (if c = 32 \<or> c = 9 \<or> c = 13 then spLoop rest j c hb erd ln
      else if c = 10 then
        (if hb then spLoop rest j c False erd (ln + 1) else (j + 1, c, True, ln + 1))
      else if c = 92 then spLoop rest j c True erd ln
      else (j, c, erd, ln))"

function lexInsideAction :: "(rune \<Rightarrow> bool) \<Rightarrow> lexer \<Rightarrow> result"
  and lexInActionSpace :: "(rune \<Rightarrow> bool) \<Rightarrow> lexer \<Rightarrow> result" where
  "lexInsideAction U l =
     (let data = drop (pos l) (input l) in
      if length data = 0 then
        (if parenDepth l > 0 then (errorf l ''unclosed left paren'' [], None, l)
         else emitThen itemRightDelim (Some StWhitespace) l)
      else
        let i = (0::nat); r = fst (decodeRune data); l1 = l\<lparr>width := 1, pos := pos l + 1\<rparr> in
        if 48 \<le> r \<and> r \<le> 57 then lexNumber U l
        else if isAlphaNumeric U r then lexIdentifier U l
        else if r = 32 \<or> r = 10 \<or> r = 9 \<or> r = 13 then lexInActionSpace U l
        else if r = 46 then
          (if i = length data - 1 then emitThen itemDot (Some StInsideAction) l1
           else if byte (data ! (i + 1)) < 48 \<or> byte (data ! (i + 1)) > 57 then lexField U l1
           else lexNumber U l)
        else if r = 124 then emitThen itemPipe (Some StInsideAction) l1
        else if r = 61 then emitThen itemAssign (Some StInsideAction) l1
        else if r = 58 then
          (if i = length data - 1 \<or> data ! (i + 1) \<noteq> CHR ''='' then
             (errorf l ''expected :='' [], None, l)
           else emitThen itemDeclare (Some StInsideAction) (l\<lparr>width := 1, pos := pos l + 2\<rparr>))
        else if r = 34 then lexQuote l1
        else if r = 96 then lexRawQuote l1
        else if r = 36 then lexVariable U l1
        else if r = 39 then lexChar l1
        else if r = 40 then
          (let (ret, l2) = emit itemLeftParen l1;
               l3 = l2\<lparr>parenDepth := parenDepth l2 + 1\<rparr>
           in (ret, Some StInsideAction, l3))
        else if r = 41 then
          (let (ret, l2) = emit itemRightParen l1;
               l3 = l2\<lparr>parenDepth := parenDepth l2 - 1\<rparr>
           in if parenDepth l3 < 0 then
                (errorf l3 ''unexpected right paren %#U'' [ArgRune r], None, l3)
              else (ret, Some StInsideAction, l3))
        else if r = 43 \<or> r = 45 then lexNumber U l
        else if r = 59 then
          emitThen itemRightDelim (Some StWhitespace) (l1\<lparr>start := pos l1\<rparr>)
        else if r \<le> 127 \<and> 32 \<le> r \<and> r \<le> 126 then
          emitThen itemChar (Some StInActionSpace) l1
        else (errorf l ''unrecognized character in action: %#U'' [ArgRune r], None, l))"
| "lexInActionSpace U l =
     (let data = drop (pos l) (input l);
          (i, r, emitRightDelim, ln) = spLoop (runes 0 data) 0 eof False False (line l);
          l1 = l\<lparr>line := ln, width := 1, pos := pos l + i\<rparr>
      in if r = eof then
           (let l2 = l1\<lparr>width := 0\<rparr> in
            emitThen itemEOF None (l2\<lparr>start := pos l2, startLine := line l2\<rparr>))
         else
           let (l2, erd) =
                 (if r = 32 \<or> r = 9 \<or> r = 13 then
                    (let l' = l1\<lparr>pos := pos l1 + 1\<rparr> in
                     (l', emitRightDelim \<or> pos l' \<ge> length (input l')))
                  else if r = 10 then (l1, emitRightDelim \<or> pos l1 \<ge> length (input l1))
                  else if r = 59 then (l1\<lparr>pos := pos l1 + 1\<rparr>, True)
                  else if r = 35 then (l1, True)
                  else (l1, emitRightDelim))
           in if erd then
                emitThen itemRightDelim (Some StWhitespace)
                  (l2\<lparr>start := pos l2, startLine := line l2\<rparr>)
              else if i = 0 then lexInsideAction U l2
              else emitThen itemSpace (Some StInsideAction) l2)"
  by pat_completeness auto

section \<open>Facts about decoding and the loops\<close>

lemma mod_sub:
  assumes "q * m \<le> (b::nat)"
  shows "b mod m = (b - q * m) mod m"
proof -
  have "b = q * m + (b - q * m)" using assms by simp
  then have "b mod m = (q * m + (b - q * m)) mod m" by simp
  also have "\<dots> = (b - q * m) mod m" by (rule mod_mult_self3)
  finally show ?thesis .
qed

lemma mask_ge:
  assumes "q * m + k \<le> (b::nat)" and "b < q * m + m"
  shows "k \<le> b mod m"
proof -
  have "b mod m = (b - q * m) mod m" using assms by (intro mod_sub) simp
  also have "\<dots> = b - q * m" using assms by simp
  finally show ?thesis using assms by simp
qed

lemma m32: "194 \<le> (b::nat) \<Longrightarrow> b < 224 \<Longrightarrow> 2 \<le> b mod 32"
  using mask_ge [of 6 32 2 b] by simp

lemma m64a: "160 \<le> (b::nat) \<Longrightarrow> b \<le> 191 \<Longrightarrow> 32 \<le> b mod 64"
  using mask_ge [of 2 64 32 b] by simp

lemma m64b: "144 \<le> (b::nat) \<Longrightarrow> b \<le> 191 \<Longrightarrow> 16 \<le> b mod 64"
  using mask_ge [of 2 64 16 b] by simp

lemma m16: "224 < (b::nat) \<Longrightarrow> b < 240 \<Longrightarrow> 1 \<le> b mod 16"
  using mask_ge [of 14 16 1 b] by simp

lemma m8: "240 < (b::nat) \<Longrightarrow> b \<le> 244 \<Longrightarrow> 1 \<le> b mod 8"
  using mask_ge [of 30 8 1 b] by simp

lemma decodeRune_multibyte:
  assumes d: "decodeRune (c # cs) = (r, w)"
  shows "w = 1 \<or> (128 \<le> r \<and> 2 \<le> w \<and> w \<le> 4 \<and> w \<le> Suc (length cs))"
proof -
  let ?b = "byte c"
  consider "?b < 128" | "128 \<le> ?b \<and> (?b < 194 \<or> 244 < ?b)" | "194 \<le> ?b \<and> ?b < 224"
    | "?b = 224" | "224 < ?b \<and> ?b < 240" | "?b = 240" | "240 < ?b \<and> ?b \<le> 244"
    by linarith
  then show ?thesis
  proof cases
    case 1
    with d show ?thesis by simp
  next
    case 2
    with d show ?thesis by (auto simp: Let_def)
  next
    case 3
    then have m: "2 \<le> ?b mod 32" using m32 [of ?b] by simp
    from 3 d have "w = 1 \<or> (w = 2 \<and> 2 \<le> Suc (length cs) \<and> int (?b mod 32) * 64 \<le> r)"
      by (auto simp: Let_def Suc_le_eq split: if_splits)
    with m show ?thesis by auto
  next
    case 4
    from 4 d have "w = 1 \<or> (w = 3 \<and> 3 \<le> Suc (length cs) \<and> 160 \<le> byte (cs ! 0) \<and> byte (cs ! 0) \<le> 191
        \<and> int (byte (cs ! 0) mod 64) * 64 \<le> r)"
      by (auto simp: Let_def Suc_le_eq split: if_splits)
    then show ?thesis using m64a [of "byte (cs ! 0)"] by auto
  next
    case 5
    then have m: "1 \<le> ?b mod 16" using m16 [of ?b] by simp
    from 5 d have "w = 1 \<or> (w = 3 \<and> 3 \<le> Suc (length cs) \<and> int (?b mod 16) * 4096 \<le> r)"
      by (auto simp: Let_def Suc_le_eq split: if_splits)
    with m show ?thesis by auto
  next
    case 6
    from 6 d have "w = 1 \<or> (w = 4 \<and> 4 \<le> Suc (length cs) \<and> 144 \<le> byte (cs ! 0) \<and> byte (cs ! 0) \<le> 191
        \<and> int (byte (cs ! 0) mod 64) * 4096 \<le> r)"
      by (auto simp: Let_def Suc_le_eq split: if_splits)
    then show ?thesis using m64b [of "byte (cs ! 0)"] by auto
  next
    case 7
    then have m: "1 \<le> ?b mod 8" using m8 [of ?b] by simp
    from 7 d have "w = 1 \<or> (w = 4 \<and> 4 \<le> Suc (length cs) \<and> int (?b mod 8) * 262144 \<le> r)"
      by (auto simp: Let_def Suc_le_eq split: if_splits)
    with m show ?thesis by auto
  qed
qed

lemma decodeRune_ascii_width:
  assumes "decodeRune (c # cs) = (r, w)" and "r < 128"
  shows "w = 1"
  using decodeRune_multibyte [OF assms(1)] assms(2) by auto

lemma runes_index_ge: "(j, x) \<in> set (runes k s) \<Longrightarrow> k \<le> j"
proof (induction k s rule: runes.induct)
  case (1 i)
  then show ?case by simp
next
  case (2 i c cs)
  obtain r w where d: "decodeRune (c # cs) = (r, w)" by (cases "decodeRune (c # cs)")
  from "2.prems" d have "(j, x) = (i, r) \<or> (j, x) \<in> set (runes (i + w) (drop (w - 1) cs))"
    by (simp del: decodeRune.simps)
  then show ?case
  proof
    assume "(j, x) = (i, r)"
    then show ?thesis by simp
  next
    assume "(j, x) \<in> set (runes (i + w) (drop (w - 1) cs))"
    from "2.IH" [OF refl d [symmetric] this] show ?thesis by simp
  qed
qed

lemma spLoop_index_pos:
  "spLoop rs i r hb erd ln = (i', r', erd', ln') \<Longrightarrow> rs \<noteq> [] \<Longrightarrow>
   (\<forall>(j, c) \<in> set rs. 1 \<le> j) \<Longrightarrow> 1 \<le> i'"
proof (induction rs arbitrary: i r hb erd ln)
  case Nil
  then show ?case by simp
next
  case (Cons a rs)
  obtain j c where a: "a = (j, c)" by (cases a)
  show ?case
  proof (cases "rs = []")
    case True
    with Cons.prems a show ?thesis by (auto split: if_splits)
  next
    case False
    with Cons.prems a Cons.IH show ?thesis
      by (auto split: if_splits)
  qed
qed

lemma spLoop_first:
  assumes "spLoop (runes 0 data) 0 eof False False ln = (0, r, erd, ln')" and "r \<noteq> eof"
  shows "data \<noteq> [] \<and> r = fst (decodeRune data) \<and> r \<noteq> 10
         \<and> (r = 32 \<or> r = 9 \<or> r = 13 \<longrightarrow> length data = 1)"
proof (cases data)
  case Nil
  with assms show ?thesis by simp
next
  case (Cons c cs)
  obtain r0 w where d: "decodeRune (c # cs) = (r0, w)" by (cases "decodeRune (c # cs)")
  have w: "0 < w" using decodeRune_width_pos [of "c # cs"] d by simp
  define rest where "rest = runes (0 + w) (drop (w - 1) cs)"
  have rs: "runes 0 data = (0, r0) # rest"
    using Cons d by (simp add: rest_def del: decodeRune.simps)
  have ge: "\<forall>(j, x) \<in> set rest. 1 \<le> j"
  proof -
    have "1 \<le> j" if "(j, x) \<in> set rest" for j x
      using runes_index_ge [of j x "0 + w" "drop (w - 1) cs"] that w by (simp add: rest_def)
    then show ?thesis by blast
  qed
  have sp: "spLoop ((0, r0) # rest) 0 eof False False ln = (0, r, erd, ln')"
    using assms rs by simp
  have dd: "fst (decodeRune data) = r0" using Cons d by simp
  show ?thesis
  proof (cases "rest = []")
    case True
    with sp have rr: "r = r0 \<and> r0 \<noteq> 10" by (auto split: if_splits)
    have "length data = 1" if "r0 = 32 \<or> r0 = 9 \<or> r0 = 13"
    proof -
      from that have "r0 < 128" by auto
      with d have "w = 1" by (rule decodeRune_ascii_width)
      with True have "runes 1 cs = []" by (simp add: rest_def)
      then have "cs = []" by (cases cs) (simp_all add: split_beta del: decodeRune.simps)
      with Cons show ?thesis by simp
    qed
    with rr dd Cons show ?thesis by simp
  next
    case False
    have no: "spLoop rest i0 q hb e k \<noteq> (0, r, erd, ln')" for i0 q hb e k
      using spLoop_index_pos [of rest i0 q hb e k 0 r erd ln'] ge False by auto
    have "r = r0 \<and> r0 \<noteq> 10 \<and> r0 \<noteq> 32 \<and> r0 \<noteq> 9 \<and> r0 \<noteq> 13"
      using sp no by (auto split: if_splits)
    with dd Cons show ?thesis by simp
  qed
qed


termination lexInsideAction
proof (relation "measure (\<lambda>x. case x of
      Inl (U, l) \<Rightarrow> (let data = drop (pos l) (input l) in
                      if data = [] then 0
                      else if (let r = fst (decodeRune data) in r = 32 \<or> r = 10 \<or> r = 9 \<or> r = 13)
                           then 2 else 0)
    | Inr (U, l) \<Rightarrow> (1::nat))", goal_cases)
  case 1
  show ?case by simp
next
  case (2 U l x xa xb xc)
  then show ?case by (simp add: Let_def del: decodeRune.simps)
next
  case (3 U l x xa xb y xc ya xd yb xe xf xg yc)
  from 3(2,3,4,5) 3(11) have sp: "spLoop (runes 0 x) 0 eof False False (line l) = (0, xc, xd, yb)"
    by simp
  from spLoop_first [OF sp 3(7)]
  have f1: "x \<noteq> []" and f2: "xc = fst (decodeRune x)" and f3: "xc \<noteq> 10"
    and f4: "xc = 32 \<or> xc = 9 \<or> xc = 13 \<Longrightarrow> length x = 1"
    by blast+
  have xe: "pos xe = pos l" "input xe = input l" using 3(6) 3(11) by simp_all
  show ?case
  proof (cases "xc = 32 \<or> xc = 9 \<or> xc = 13")
    case True
    then have "length x = 1" by (rule f4)
    then have "length (input l) = pos l + 1" using 3(1) by simp
    with 3(8) True xe have "yc" using 3(9) by (auto simp: Let_def)
    with 3(10) show ?thesis by simp
  next
    case False
    with 3(8) 3(9) 3(10) f3 have "xg = xe" by (auto split: if_splits)
    with xe 3(1) f1 f2 f3 False show ?thesis
      by (simp add: Let_def del: decodeRune.simps)
  qed
qed

text \<open>The state function stored in \<open>nextState\<close>, applied to the lexer.\<close>

fun runState :: "(rune \<Rightarrow> bool) \<Rightarrow> stateFn \<Rightarrow> lexer \<Rightarrow> result" where
  "runState U StWhitespace l = lexWhitespace l"
| "runState U StInsideAction l = lexInsideAction U l"
| "runState U StInActionSpace l = lexInActionSpace U l"

text \<open>Every state function but \<open>lexComment\<close> returns a meaningful item.\<close>

lemma emit_notEmpty: "notEmpty (fst (emit t l))"
  by (simp add: emit_def)

lemma emitThen_notEmpty: "notEmpty (fst (emitThen t n l))"
  by (simp add: emitThen_def emit_def)

lemma errorf_notEmpty: "notEmpty (errorf l f as)"
  by (simp add: errorf_def)

lemmas ne_simps = emit_notEmpty emitThen_notEmpty errorf_notEmpty

lemma lexIdentifier_notEmpty: "notEmpty (fst (lexIdentifier U l))"
  unfolding lexIdentifier_def Let_def split_beta
  by (simp only: ne_simps fst_conv if_split [where P = "\<lambda>x. notEmpty (fst x)"] simp_thms)

lemma lexFieldOrVariable_notEmpty: "notEmpty (fst (lexFieldOrVariable U l t))"
  unfolding lexFieldOrVariable_def Let_def split_beta
  by (simp only: ne_simps fst_conv if_split [where P = "\<lambda>x. notEmpty (fst x)"] simp_thms)


lemmas ne_if = if_split [where P = "\<lambda>x. notEmpty (fst x)"]

lemma lexField_notEmpty: "notEmpty (fst (lexField U l))"
  by (simp only: lexField_def lexFieldOrVariable_notEmpty)

lemma lexVariable_notEmpty: "notEmpty (fst (lexVariable U l))"
  unfolding lexVariable_def
  by (simp only: ne_simps lexFieldOrVariable_notEmpty ne_if simp_thms)

lemma lexChar_notEmpty: "notEmpty (fst (lexChar l))"
  unfolding lexChar_def Let_def
  by (simp only: ne_simps fst_conv option.split [where P = "\<lambda>x. notEmpty (fst x)"] simp_thms)

lemma lexQuote_notEmpty: "notEmpty (fst (lexQuote l))"
  unfolding lexQuote_def Let_def
  by (simp only: ne_simps fst_conv option.split [where P = "\<lambda>x. notEmpty (fst x)"] simp_thms)

lemma lexRawQuote_notEmpty: "notEmpty (fst (lexRawQuote l))"
  unfolding lexRawQuote_def Let_def split_beta
  by (simp only: ne_simps fst_conv ne_if simp_thms)

lemma lexNumber_notEmpty: "notEmpty (fst (lexNumber U l))"
  unfolding lexNumber_def Let_def split_beta
  by (simp only: ne_simps fst_conv ne_if simp_thms)

lemmas lex_notEmpty = lexIdentifier_notEmpty lexField_notEmpty lexVariable_notEmpty
  lexChar_notEmpty lexQuote_notEmpty lexRawQuote_notEmpty lexNumber_notEmpty


lemma lexInsideAction_notEmpty: "notEmpty (fst (lexInsideAction U l))"
  and lexInActionSpace_notEmpty: "notEmpty (fst (lexInActionSpace U l))"
proof (induction U l and U l rule: lexInsideAction_lexInActionSpace.induct)
  case (1 U l)
  note ih = 1 [OF refl _ refl refl refl]
  show ?case
    apply (subst lexInsideAction.simps)
    unfolding Let_def split_beta
    apply (simp only: ne_simps lex_notEmpty fst_conv ne_if simp_thms)
    using ih apply blast
    done
next
  case (2 U l)
  obtain i r erd ln where
    sp: "spLoop (runes 0 (drop (pos l) (input l))) 0 eof False False (line l) = (i, r, erd, ln)"
    by (metis prod_cases4)
  note ih = 2 [OF refl refl sp [symmetric] refl refl refl _ refl prod.collapse]
  show ?case
    apply (subst lexInActionSpace.simps)
    apply (simp only: sp Let_def prod.case)
    apply (simp only: split_beta ne_simps fst_conv ne_if simp_thms)
    using ih [unfolded Let_def] apply blast
    done
qed

text \<open>A dropped comment consumes input, so the loop of \<open>nextItem\<close> ends.\<close>

lemma runes_index_lt: "(j, x) \<in> set (runes k s) \<Longrightarrow> j < k + length s"
proof (induction k s rule: runes.induct)
  case (1 i)
  then show ?case by simp
next
  case (2 i c cs)
  obtain r w where d: "decodeRune (c # cs) = (r, w)" by (cases "decodeRune (c # cs)")
  have w: "0 < w" using decodeRune_width_pos [of "c # cs"] d by simp
  from "2.prems" d have "(j, x) = (i, r) \<or> (j, x) \<in> set (runes (i + w) (drop (w - 1) cs))"
    by (simp del: decodeRune.simps)
  then show ?case
  proof
    assume "(j, x) = (i, r)"
    then show ?thesis by simp
  next
    assume m: "(j, x) \<in> set (runes (i + w) (drop (w - 1) cs))"
    then have ne: "drop (w - 1) cs \<noteq> []" by auto
    from "2.IH" [OF refl d [symmetric] m] have "j < i + w + (length cs - (w - 1))" by simp
    with ne w show ?thesis by simp
  qed
qed

lemma wsLoop_mem:
  "wsLoop rs i r ln = (i', r', ln') \<Longrightarrow> (i', r') = (i, r) \<or> (i', r') \<in> set rs"
proof (induction rs arbitrary: i r ln)
  case Nil
  then show ?case by simp
next
  case (Cons a rs)
  obtain j c where a: "a = (j, c)" by (cases a)
  from Cons.prems a Cons.IH [of j c ln] Cons.IH [of j c "ln + 1"] show ?case
    by (auto split: if_splits)
qed

lemma lexComment_progress:
  assumes "lexComment l = (ret, n, l1)" and "pos l < length (input l)"
  shows "pos l < pos l1 \<and> input l1 = input l"
  using assms
  by (auto simp: lexComment_def Let_def emit_def split: option.splits if_splits)

lemma lexWhitespace_progress:
  assumes "lexWhitespace l = (ret, n, l1)" and "\<not> notEmpty ret"
  shows "pos l < length (input l) \<and> pos l < pos l1 \<and> input l1 = input l"
proof -
  let ?data = "drop (pos l) (input l)"
  obtain i r ln where ws: "wsLoop (runes 0 ?data) 0 eof (line l) = (i, r, ln)"
    by (metis prod_cases3)
  define l3 where "l3 = (let l1 = l\<lparr>line := ln\<rparr>;
          l2 = (if r = eof then l1\<lparr>width := 0\<rparr>
                else if i \<noteq> 0 then l1\<lparr>pos := pos l1 + i, width := 1\<rparr>
                else l1)
      in l2\<lparr>start := pos l2, startLine := line l2\<rparr>)"
  have eq: "lexWhitespace l =
     (if r = 32 \<or> r = 13 \<or> r = 9 \<or> r = 10 \<or> r = eof then emitThen itemEOF None l3
         else if r = 35 then lexComment l3
         else emitThen itemLeftDelim (Some StInsideAction) l3)"
    unfolding lexWhitespace_def l3_def by (simp only: ws Let_def prod.case)
  from assms eq have r: "r = 35" and c: "lexComment l3 = (ret, n, l1)"
    using emitThen_notEmpty [of itemEOF None l3]
      emitThen_notEmpty [of itemLeftDelim "Some StInsideAction" l3]
    by (auto split: if_splits)
  from wsLoop_mem [OF ws] r have "(i, r) \<in> set (runes 0 ?data)" by auto
  from runes_index_lt [OF this] have i: "pos l + i < length (input l)" by simp
  have l3: "pos l3 = pos l + i" "input l3 = input l"
    using r by (simp_all add: l3_def Let_def)
  from lexComment_progress [OF c] i l3 show ?thesis by simp
qed

section \<open>The driver\<close>

text \<open>
  \<open>nextItem\<close>: run the state functions until one returns a meaningful item or the
  next state is \<open>nil\<close>; with no state left, return a fake EOF. The updated lexer is
  returned with the item.
\<close>

function nextItem :: "(rune \<Rightarrow> bool) \<Rightarrow> lexer \<Rightarrow> item \<times> lexer" where
  "nextItem U l =
     (case nextState l of
        None \<Rightarrow> emit itemEOF l
      | Some s \<Rightarrow>
          let (ret, nxt, l1) = runState U s l;
              l2 = l1\<lparr>nextState := nxt\<rparr>
          in if nxt = None then (ret, l2)
             else if notEmpty ret then (ret, l2)
             else nextItem U l2)"
  by pat_completeness auto

lemma runState_progress:
  assumes "runState U s l = (ret, n, l1)" and "\<not> notEmpty ret"
  shows "pos l < length (input l) \<and> pos l < pos l1 \<and> input l1 = input l"
proof (cases s)
  case StWhitespace
  with assms lexWhitespace_progress show ?thesis by simp
next
  case StInsideAction
  with assms lexInsideAction_notEmpty [of U l] show ?thesis by simp
next
  case StInActionSpace
  with assms lexInActionSpace_notEmpty [of U l] show ?thesis by simp
qed

termination nextItem
proof (relation "measure (\<lambda>(U, l). length (input l) - pos l)", goal_cases)
  case 1
  show ?case by simp
next
  case (2 U l s x ret y nxt l1 l2)
  then have "runState U s l = (ret, nxt, l1)" and "\<not> notEmpty ret" by simp_all
  from runState_progress [OF this] 2 show ?case
    by (auto intro: diff_less_mono2)
qed

text \<open>\<open>lex\<close>: a new scanner for the input string.\<close>

definition lex_new :: "string \<Rightarrow> string \<Rightarrow> bool \<Rightarrow> lexer" where
  "lex_new nm inp ec =
     \<lparr>name = nm, input = inp, emitComment = ec, pos = 0, start = 0, width = 0,
      parenDepth = 0, line = 1, startLine = 1, nextState = Some StWhitespace\<rparr>"

text \<open>The first \<open>n\<close> items that repeated calls of \<open>nextItem\<close> return.\<close>

fun nextItems :: "(rune \<Rightarrow> bool) \<Rightarrow> nat \<Rightarrow> lexer \<Rightarrow> item list" where
  "nextItems U 0 l = []"
| "nextItems U (Suc n) l = (let (it, l1) = nextItem U l in it # nextItems U n l1)"

declare lexInsideAction.simps [simp del] lexInActionSpace.simps [simp del]
  nextItem.simps [simp del]

lemma nextItem_step:
  assumes "nextState l = Some s" and "runState U s l = (ret, nxt, l1)"
    and "nxt = None \<or> notEmpty ret"
  shows "nextItem U l = (ret, l1\<lparr>nextState := nxt\<rparr>)"
  using assms by (subst nextItem.simps) (auto simp: Let_def)

lemma nextItem_skip:
  assumes "nextState l = Some s" and "runState U s l = (ret, Some n, l1)"
    and "\<not> notEmpty ret"
  shows "nextItem U l = nextItem U (l1\<lparr>nextState := Some n\<rparr>)"
  using assms by (subst nextItem.simps) (simp add: Let_def)

text \<open>
  Closed examples need a table for the letters and digits beyond ASCII; their inputs are
  ASCII, so the table plays no part in them.
\<close>

definition noUnicode :: "rune \<Rightarrow> bool" where
  "noUnicode r = False"

text \<open>The lexer after \<open>n\<close> calls of \<open>nextItem\<close>.\<close>

fun afterItems :: "(rune \<Rightarrow> bool) \<Rightarrow> nat \<Rightarrow> lexer \<Rightarrow> lexer" where
  "afterItems U 0 l = l"
| "afterItems U (Suc n) l = afterItems U n (snd (nextItem U l))"

text \<open>
  The line number the specification gives a position: one plus the number of newline
  bytes of the input before it.
\<close>

definition specLine :: "string \<Rightarrow> nat \<Rightarrow> int" where
  "specLine s p = 1 + int (length (filter (\<lambda>c. c = CHR 0x0A) (take p s)))"

section \<open>Predicates used in the statements\<close>

text \<open>
  The kinds of item the terminator rule is about: identifiers, fields, variables, the
  keywords (with the cursor \<open>.\<close> and \<open>nil\<close>) and the boolean constants, which
  \<open>lexIdentifier\<close> scans like keywords.
\<close>

definition nameItem :: "itemType \<Rightarrow> bool" where
  "nameItem t = (t \<in> {itemIdentifier, itemField, itemVariable, itemBool, itemBlock, itemBreak,
     itemContinue, itemDot, itemDefine, itemElse, itemEnd, itemIf, itemNil, itemRange,
     itemTemplate, itemWith})"

text \<open>A result that, when it is a name item, leaves the lexer at a terminator.\<close>

definition nameOK :: "result \<Rightarrow> bool" where
  "nameOK x = (nameItem (ityp (fst x)) \<longrightarrow> atTerminator (snd (snd x)))"






text \<open>The two kinds of item that end the stream: an error and the end of input.\<close>

definition lastItem :: "itemType \<Rightarrow> bool" where
  "lastItem t = (t = itemError \<or> t = itemEOF)"

text \<open>A result that, when it carries an ERROR or EOF item, has no next state.\<close>

definition stopsAtLast :: "result \<Rightarrow> bool" where
  "stopsAtLast x = (notEmpty (fst x) \<and> lastItem (ityp (fst x)) \<longrightarrow> fst (snd x) = None)"

section \<open>Blanks and newlines inside an action\<close>

lemma runes_ascii:
  "byte c < 128 \<Longrightarrow> runes k (c # cs) = (k, int (byte c)) # runes (k + 1) cs"
  by simp








section \<open>Bytes below 128 are runes of their own\<close>

lemma decodeRune_one:
  assumes "decodeRune (c # cs) = (r, w)" and "w = 1"
  shows "(byte c < 128 \<and> r = int (byte c)) \<or> r = RuneError"
  using assms by (auto simp: Let_def split: if_splits)

lemma decodeRune_cont:
  assumes d: "decodeRune (c # cs) = (r, w)" and j: "j < w - 1"
  shows "128 \<le> byte (cs ! j)"
proof -
  let ?b = "byte c"
  have cases: "w = 1 \<or> (w = 2 \<and> 128 \<le> byte (cs ! 0))
      \<or> (w = 3 \<and> 128 \<le> byte (cs ! 0) \<and> 128 \<le> byte (cs ! 1))
      \<or> (w = 4 \<and> 128 \<le> byte (cs ! 0) \<and> 128 \<le> byte (cs ! 1) \<and> 128 \<le> byte (cs ! 2))"
  proof -
    consider "?b < 128" | "128 \<le> ?b \<and> (?b < 194 \<or> 244 < ?b)" | "194 \<le> ?b \<and> ?b < 224"
      | "224 \<le> ?b \<and> ?b < 240" | "240 \<le> ?b \<and> ?b \<le> 244"
      by linarith
    then show ?thesis
    proof cases
      case 1
      with d show ?thesis by simp
    next
      case 2
      with d show ?thesis by (auto simp: Let_def)
    next
      case 3
      with d show ?thesis by (auto simp: Let_def split: if_splits)
    next
      case 4
      with d show ?thesis by (auto simp: Let_def split: if_splits)
    next
      case 5
      with d show ?thesis by (auto simp: Let_def split: if_splits)
    qed
  qed
  from j have "j = 0 \<or> j = 1 \<or> j = 2 \<or> 3 \<le> j" by linarith
  with cases j show ?thesis by auto
qed


lemma byte_backquote: "byte (CHR 0x60) = 96"
  by (simp add: byte_def)

lemma byte_eq_backquote: "byte c = 96 \<Longrightarrow> c = CHR 0x60"
  using of_char_eq_iff [of c "CHR 0x60", where ?'a = nat] by (simp add: byte_def)

lemma decodeRune_not_backquote:
  assumes d: "decodeRune (c # cs) = (r, w)" and c: "c \<noteq> CHR 0x60"
  shows "r \<noteq> 96"
proof
  assume r: "r = 96"
  with decodeRune_multibyte [OF d] have w: "w = 1" by auto
  from decodeRune_one [OF d w] r have "byte c = 96" by (auto simp: RuneError_def)
  with c byte_eq_backquote show False by blast
qed

lemma decodeRune_within:
  assumes d: "decodeRune (c # cs @ x # tail) = (r, w)" and x: "byte x < 128"
  shows "w - 1 \<le> length cs"
proof (rule ccontr)
  assume "\<not> w - 1 \<le> length cs"
  then have "length cs < w - 1" by simp
  from decodeRune_cont [OF d this] x show False by simp
qed

lemma rawLoop_step:
  "r \<noteq> 96 \<Longrightarrow> \<exists>ln'. rawLoop ((k, r) # rest) i ln = rawLoop rest k ln'"
  by auto

lemma rawLoop_found:
  "CHR 0x60 \<notin> set body \<Longrightarrow>
   \<exists>ln'. rawLoop (runes k (body @ CHR 0x60 # tail)) i ln = (k + length body, True, ln')"
proof (induction body arbitrary: k i ln rule: length_induct)
  case (1 body)
  show ?case
  proof (cases body)
    case Nil
    then show ?thesis
      using runes_ascii [of "CHR 0x60" k tail] by (simp add: byte_backquote del: runes.simps)
  next
    case (Cons c cs)
    obtain r w where d: "decodeRune (c # cs @ CHR 0x60 # tail) = (r, w)"
      by (cases "decodeRune (c # cs @ CHR 0x60 # tail)")
    have c: "c \<noteq> CHR 0x60" using 1(2) Cons by auto
    have r: "r \<noteq> 96" using d c by (rule decodeRune_not_backquote)
    have w: "0 < w" using decodeRune_width_pos [of "c # cs @ CHR 0x60 # tail"] d by simp
    have wl: "w - 1 \<le> length cs"
      using d by (rule decodeRune_within) (simp add: byte_backquote)
    define body' where "body' = drop (w - 1) cs"
    have rs: "runes k (body @ CHR 0x60 # tail) = (k, r) # runes (k + w) (body' @ CHR 0x60 # tail)"
      using Cons d wl by (simp add: body'_def del: decodeRune.simps)
    have len: "length body' < length body" using Cons by (simp add: body'_def)
    have nb: "CHR 0x60 \<notin> set body'"
      using 1(2) Cons by (auto simp: body'_def dest: in_set_dropD)
    obtain ln1 where "rawLoop ((k, r) # runes (k + w) (body' @ CHR 0x60 # tail)) i ln
        = rawLoop (runes (k + w) (body' @ CHR 0x60 # tail)) k ln1"
      using rawLoop_step [OF r] by blast
    moreover obtain ln2 where "rawLoop (runes (k + w) (body' @ CHR 0x60 # tail)) k ln1
        = (k + w + length body', True, ln2)"
      using 1(1) len nb by blast
    moreover have "k + w + length body' = k + length body"
      using Cons wl w by (simp add: body'_def)
    ultimately show ?thesis using rs by simp
  qed
qed

lemma rawLoop_missing:
  "CHR 0x60 \<notin> set s \<Longrightarrow> \<exists>i' ln'. rawLoop (runes k s) i ln = (i', False, ln')"
proof (induction s arbitrary: k i ln rule: length_induct)
  case (1 s)
  show ?case
  proof (cases s)
    case Nil
    then show ?thesis by simp
  next
    case (Cons c cs)
    obtain r w where d: "decodeRune (c # cs) = (r, w)" by (cases "decodeRune (c # cs)")
    have c: "c \<noteq> CHR 0x60" using 1(2) Cons by auto
    have r: "r \<noteq> 96" using d c by (rule decodeRune_not_backquote)
    have rs: "runes k s = (k, r) # runes (k + w) (drop (w - 1) cs)"
      using Cons d by (simp del: decodeRune.simps)
    have len: "length (drop (w - 1) cs) < length s" using Cons by simp
    have nb: "CHR 0x60 \<notin> set (drop (w - 1) cs)"
      using 1(2) Cons by (auto dest: in_set_dropD)
    obtain ln1 where "rawLoop ((k, r) # runes (k + w) (drop (w - 1) cs)) i ln
        = rawLoop (runes (k + w) (drop (w - 1) cs)) k ln1"
      using rawLoop_step [OF r] by blast
    moreover obtain i2 ln2 where "rawLoop (runes (k + w) (drop (w - 1) cs)) k ln1 = (i2, False, ln2)"
      using 1(1) len nb by blast
    ultimately show ?thesis using rs by simp
  qed
qed


lemma lexInsideAction_backquote:
  assumes d: "drop (pos l) (input l) = CHR 0x60 # rest"
  shows "lexInsideAction U l = lexRawQuote (l\<lparr>width := 1, pos := pos l + 1\<rparr>)"
  apply (subst lexInsideAction.simps)
  apply (simp only: d Let_def)
  apply (simp add: byte_backquote isAlphaNumeric_def)
  done

lemma drop_Suc_pos:
  "drop (pos l) (input l) = c # rest \<Longrightarrow> drop (pos l + 1) (input l) = rest"
  by (metis Suc_eq_plus1 drop_Suc list.sel(3) tl_drop)

section \<open>Names and terminators\<close>


















lemma nameOK_paren: "\<not> nameItem (ityp (fst x)) \<Longrightarrow> nameOK (fst x, n, l')"
  by (simp add: nameOK_def)













section \<open>Numbers\<close>








section \<open>Comments\<close>








section \<open>After termination\<close>

text \<open>
  Every state function that returns an ERROR or EOF item returns \<open>nil\<close> as the next state.
\<close>

lemma stopsAtLast_emitThen: "\<not> lastItem t \<Longrightarrow> stopsAtLast (emitThen t n l)"
  by (simp add: stopsAtLast_def emitThen_def emit_def)

lemma stopsAtLast_None: "stopsAtLast (it, None, l)"
  by (simp add: stopsAtLast_def)

lemma stopsAtLast_emitThen_None: "stopsAtLast (emitThen t None l)"
  by (simp add: stopsAtLast_def emitThen_def)

lemma not_lastItem:
  "\<not> lastItem itemBool" "\<not> lastItem itemChar" "\<not> lastItem itemCharConstant"
  "\<not> lastItem itemComment" "\<not> lastItem itemComplex" "\<not> lastItem itemAssign"
  "\<not> lastItem itemDeclare" "\<not> lastItem itemField" "\<not> lastItem itemIdentifier"
  "\<not> lastItem itemLeftDelim" "\<not> lastItem itemLeftParen" "\<not> lastItem itemNumber"
  "\<not> lastItem itemPipe" "\<not> lastItem itemRawString" "\<not> lastItem itemRightDelim"
  "\<not> lastItem itemRightParen" "\<not> lastItem itemSpace" "\<not> lastItem itemString"
  "\<not> lastItem itemVariable" "\<not> lastItem itemBlock" "\<not> lastItem itemBreak"
  "\<not> lastItem itemContinue" "\<not> lastItem itemDot" "\<not> lastItem itemDefine"
  "\<not> lastItem itemElse" "\<not> lastItem itemEnd" "\<not> lastItem itemIf" "\<not> lastItem itemNil"
  "\<not> lastItem itemRange" "\<not> lastItem itemTemplate" "\<not> lastItem itemWith"
  by (simp_all add: lastItem_def)

lemmas stops_if = if_split [where P = stopsAtLast]
lemmas stops_simps = stopsAtLast_emitThen stopsAtLast_None stopsAtLast_emitThen_None not_lastItem
  simp_thms

lemma lexComment_stops: "stopsAtLast (lexComment l)"
  by (simp add: lexComment_def Let_def stopsAtLast_def split_beta emit_def zeroItem_def lastItem_def)

lemma lexWhitespace_stops: "stopsAtLast (lexWhitespace l)"
  unfolding lexWhitespace_def Let_def split_beta
  by (simp only: stops_if stops_simps lexComment_stops)

lemma lexIdentifier_stops: "stopsAtLast (lexIdentifier U l)"
  unfolding lexIdentifier_def Let_def split_beta
  by (simp only: stops_if stops_simps)

lemma lexFieldOrVariable_stops:
  "\<not> lastItem t \<Longrightarrow> stopsAtLast (lexFieldOrVariable U l t)"
  unfolding lexFieldOrVariable_def Let_def split_beta
  by (simp only: stops_if stops_simps)

lemma lexField_stops: "stopsAtLast (lexField U l)"
  unfolding lexField_def by (rule lexFieldOrVariable_stops) (rule not_lastItem)

lemma lexVariable_stops: "stopsAtLast (lexVariable U l)"
  unfolding lexVariable_def
  by (simp only: stops_if stops_simps lexFieldOrVariable_stops)

lemma lexChar_stops: "stopsAtLast (lexChar l)"
  unfolding lexChar_def Let_def
  by (simp only: option.split [where P = stopsAtLast] stops_simps)

lemma lexQuote_stops: "stopsAtLast (lexQuote l)"
  unfolding lexQuote_def Let_def
  by (simp only: option.split [where P = stopsAtLast] stops_simps)

lemma lexRawQuote_stops: "stopsAtLast (lexRawQuote l)"
  unfolding lexRawQuote_def Let_def split_beta
  by (simp only: stops_if stops_simps)

lemma lexNumber_stops: "stopsAtLast (lexNumber U l)"
  unfolding lexNumber_def Let_def split_beta
  by (simp only: stops_if stops_simps)

lemmas lex_stops = lexIdentifier_stops lexField_stops lexVariable_stops lexChar_stops
  lexQuote_stops lexRawQuote_stops lexNumber_stops

lemma lexInsideAction_stops: "stopsAtLast (lexInsideAction U l)"
  and lexInActionSpace_stops: "stopsAtLast (lexInActionSpace U l)"
proof (induction U l and U l rule: lexInsideAction_lexInActionSpace.induct)
  case (1 U l)
  note ih = 1 [OF refl _ refl refl refl]
  have lp: "stopsAtLast (fst (emit itemLeftParen l'), n, l'')" for l' n l''
    by (simp add: stopsAtLast_def emit_def lastItem_def)
  have rp: "stopsAtLast (fst (emit itemRightParen l'), n, l'')" for l' n l''
    by (simp add: stopsAtLast_def emit_def lastItem_def)
  show ?case
    apply (subst lexInsideAction.simps)
    unfolding Let_def split_beta
    apply (simp only: stops_if stops_simps lex_stops lp rp)
    using ih apply blast
    done
next
  case (2 U l)
  obtain i r erd ln where
    sp: "spLoop (runes 0 (drop (pos l) (input l))) 0 eof False False (line l) = (i, r, erd, ln)"
    by (metis prod_cases4)
  note ih = 2 [OF refl refl sp [symmetric] refl refl refl _ refl prod.collapse]
  show ?case
    apply (subst lexInActionSpace.simps)
    apply (simp only: sp Let_def prod.case)
    apply (simp only: split_beta stops_if stops_simps)
    using ih [unfolded Let_def] apply blast
    done
qed

lemma nextItem_terminated: "nextState l = None \<Longrightarrow> nextItem U l = emit itemEOF l"
  by (subst nextItem.simps) simp

lemma nextItems_terminated:
  "nextState l = None \<Longrightarrow> \<forall>it \<in> set (nextItems U n l). ityp it = itemEOF"
proof (induction n arbitrary: l)
  case 0
  then show ?case by simp
next
  case (Suc n)
  have e: "nextItem U l = emit itemEOF l" using Suc.prems by (rule nextItem_terminated)
  have "nextState (snd (emit itemEOF l)) = None" using Suc.prems by (simp add: emit_def)
  from Suc.IH [OF this] e show ?case by (simp add: emit_def)
qed

lemma runState_stops: "stopsAtLast (runState U s l)"
  by (cases s) (simp_all add: lexWhitespace_stops lexInsideAction_stops lexInActionSpace_stops)

lemma nextItem_stops:
  "lastItem (ityp (fst (nextItem U l))) \<Longrightarrow> nextState (snd (nextItem U l)) = None"
proof (induction U l rule: nextItem.induct)
  case (1 U l)
  show ?case
  proof (cases "nextState l")
    case None
    then show ?thesis by (simp add: nextItem_terminated emit_def)
  next
    case (Some s)
    obtain ret nxt l1 where r: "runState U s l = (ret, nxt, l1)" by (cases "runState U s l")
    have st: "notEmpty ret \<and> lastItem (ityp ret) \<longrightarrow> nxt = None"
      using runState_stops [of U s l] by (simp add: r stopsAtLast_def)
    show ?thesis
    proof (cases "nxt = None \<or> notEmpty ret")
      case True
      then have "nextItem U l = (ret, l1\<lparr>nextState := nxt\<rparr>)"
        using Some r by (intro nextItem_step)
      with st True "1.prems" show ?thesis by auto
    next
      case False
      then obtain n where n: "nxt = Some n" and ne: "\<not> notEmpty ret" by auto
      have e: "nextItem U l = nextItem U (l1\<lparr>nextState := Some n\<rparr>)"
        using Some r ne unfolding n by (rule nextItem_skip)
      from "1.IH" [OF Some r [symmetric] refl refl] False n "1.prems" e
      show ?thesis by simp
    qed
  qed
qed

text \<open>
  C10. When \<open>nextItem\<close> returns an ERROR or an EOF item, in whatever state the lexer was,
  it leaves the next state \<open>nil\<close>: the state machine has terminated. And once the next
  state is \<open>nil\<close>, \<open>nextItem\<close> returns an item of kind EOF and leaves the next state
  \<open>nil\<close>, so every later call returns an EOF item as well: no other item is ever produced
  after termination.
\<close>

theorem nextItem_after_termination:
  "(lastItem (ityp (fst (nextItem U l))) \<longrightarrow> nextState (snd (nextItem U l)) = None)
   \<and> (nextState l = None \<longrightarrow>
        ityp (fst (nextItem U l)) = itemEOF \<and> nextState (snd (nextItem U l)) = None
        \<and> (\<forall>it \<in> set (nextItems U n l). ityp it = itemEOF))"
proof (intro conjI impI)
  assume "lastItem (ityp (fst (nextItem U l)))"
  then show "nextState (snd (nextItem U l)) = None" by (rule nextItem_stops)
next
  assume t: "nextState l = None"
  then show "ityp (fst (nextItem U l)) = itemEOF" by (simp add: nextItem_terminated emit_def)
  from t show "nextState (snd (nextItem U l)) = None" by (simp add: nextItem_terminated emit_def)
  from t show "\<forall>it \<in> set (nextItems U n l). ityp it = itemEOF" by (rule nextItems_terminated)
qed

theorem nextItem_after_termination_witness:
  "map ityp (nextItems noUnicode 2 (lex_new [] ''3k'' False)) = [itemLeftDelim, itemError]
   \<and> lastItem (ityp (fst (nextItem noUnicode (afterItems noUnicode 1 (lex_new [] ''3k'' False)))))
   \<and> nextState (afterItems noUnicode 2 (lex_new [] ''3k'' False)) = None
   \<and> ityp (fst (nextItem noUnicode (afterItems noUnicode 2 (lex_new [] ''3k'' False)))) = itemEOF
   \<and> map ityp (nextItems noUnicode 3 (afterItems noUnicode 2 (lex_new [] ''3k'' False)))
       = [itemEOF, itemEOF, itemEOF]"
proof -
  define l where "l = afterItems noUnicode 1 (lex_new [] ''3k'' False)"
  define l' where "l' = afterItems noUnicode 2 (lex_new [] ''3k'' False)"
  have h: "lastItem (ityp (fst (nextItem noUnicode l)))"
    unfolding l_def by code_simp
  have a: "map ityp (nextItems noUnicode 2 (lex_new [] ''3k'' False)) = [itemLeftDelim, itemError]"
    by code_simp
  have b: "map ityp (nextItems noUnicode 3 l') = [itemEOF, itemEOF, itemEOF]"
    unfolding l'_def by code_simp
  have c: "l' = snd (nextItem noUnicode l)"
    unfolding l_def l'_def by (simp add: numeral_2_eq_2)
  from nextItem_after_termination [of noUnicode l 0] h
  have t: "nextState l' = None" unfolding c by blast
  from nextItem_after_termination [of noUnicode l' 3] t
  have e: "ityp (fst (nextItem noUnicode l')) = itemEOF" by blast
  from h a b t e show ?thesis unfolding l_def l'_def by blast
qed

section \<open>The end of input inside an action\<close>

text \<open>
  C1. On the input \<open>@\<close> the lexer emits LEFT_DELIM, CHAR and then EOF: the action that
  LEFT_DELIM opened is never closed by a RIGHT_DELIM, and no ERROR item is in the stream.
  \<open>lexInActionSpace\<close>, the state after a CHAR item, returns EOF at the end of input, where
  \<open>lexInsideAction\<close> returns RIGHT_DELIM first.
\<close>

theorem char_at_end_leaves_action_open:
  "map (\<lambda>it. (ityp it, val it)) (nextItems noUnicode 4 (lex_new [] ''@'' False))
     = [(itemLeftDelim, []), (itemChar, ''@''), (itemEOF, []), (itemEOF, [])]"
  by code_simp

text \<open>
  C3. On the input \<open>(3\<close> followed by a space the end of input is reached with paren depth
  one, and the lexer emits RIGHT_DELIM and EOF, no ERROR item: \<open>lexInActionSpace\<close> never
  looks at the paren depth. Without the trailing space \<open>lexInsideAction\<close> reports
  \<open>unclosed left paren\<close>.
\<close>

theorem unclosed_paren_before_blank_unreported:
  "map (\<lambda>it. (ityp it, val it)) (nextItems noUnicode 5 (lex_new [] ''(3 '' False))
     = [(itemLeftDelim, []), (itemLeftParen, ''(''), (itemNumber, ''3''),
        (itemRightDelim, []), (itemEOF, [])]
   \<and> parenDepth (afterItems noUnicode 5 (lex_new [] ''(3 '' False)) = 1
   \<and> map (\<lambda>it. (ityp it, val it)) (nextItems noUnicode 4 (lex_new [] ''(3'' False))
     = [(itemLeftDelim, []), (itemLeftParen, ''(''), (itemNumber, ''3''),
        (itemError, ''unclosed left paren'')]"
  by code_simp

section \<open>Line numbers\<close>

text \<open>
  C7. The input is \<open>a\<close>, a space, a backslash and a newline. The continued newline is the
  last byte: the loop of \<open>lexInActionSpace\<close> counts it and leaves it unconsumed, and the
  next call counts it again. The RIGHT_DELIM and EOF items at byte 4 carry line 3, where
  one plus the number of newlines before byte 4 is 2.
\<close>

theorem continued_newline_counted_twice:
  "map (\<lambda>it. (ityp it, ipos it, iline it))
       (nextItems noUnicode 5 (lex_new [] [CHR ''a'', CHR '' '', CHR 0x5C, CHR 0x0A] False))
     = [(itemLeftDelim, 0, 1), (itemIdentifier, 0, 1), (itemSpace, 1, 1),
        (itemRightDelim, 4, 3), (itemEOF, 4, 3)]
   \<and> specLine [CHR ''a'', CHR '' '', CHR 0x5C, CHR 0x0A] 4 = 2"
  by code_simp

section \<open>Newlines and paren depth\<close>




section \<open>Raw strings\<close>

text \<open>
  C8. The lexer is inside an action at a backquote. If no backquote follows before the
  end of input, the next item is an ERROR with the message
  \<open>unterminated raw quoted string\<close> and the state machine stops. If the text after the
  opening backquote is \<open>body\<close>, a closing backquote and \<open>tail\<close>, where \<open>body\<close> is any byte
  sequence without a backquote (newlines included), the next item is one RAW_STRING whose
  value is the slice from the item's start to just after the closing backquote, that is
  the two backquotes with \<open>body\<close> unchanged between them; it carries the line the lexer
  had at its start.
\<close>

theorem raw_quote:
  assumes st: "nextState l = Some StInsideAction"
    and d: "drop (pos l) (input l) = CHR 0x60 # rest"
  shows "(CHR 0x60 \<notin> set rest \<longrightarrow>
            ityp (fst (nextItem U l)) = itemError
          \<and> val (fst (nextItem U l)) = ''unterminated raw quoted string''
          \<and> args (fst (nextItem U l)) = []
          \<and> nextState (snd (nextItem U l)) = None)
       \<and> (\<forall>body tail. rest = body @ CHR 0x60 # tail \<and> CHR 0x60 \<notin> set body \<longrightarrow>
            ityp (fst (nextItem U l)) = itemRawString
          \<and> ipos (fst (nextItem U l)) = start l
          \<and> iline (fst (nextItem U l)) = startLine l
          \<and> val (fst (nextItem U l)) = slice (input l) (start l) (pos l + length body + 2)
          \<and> (start l = pos l \<longrightarrow> val (fst (nextItem U l)) = CHR 0x60 # body @ [CHR 0x60])
          \<and> pos (snd (nextItem U l)) = pos l + length body + 2
          \<and> nextState (snd (nextItem U l)) = Some StInsideAction)"
proof -
  define l1 where "l1 = l\<lparr>width := 1, pos := pos l + 1\<rparr>"
  have l1: "pos l1 = pos l + 1" "input l1 = input l" "start l1 = start l"
    "startLine l1 = startLine l" "line l1 = line l"
    by (simp_all add: l1_def)
  have rest: "drop (pos l1) (input l1) = rest" using drop_Suc_pos [OF d] by (simp add: l1)
  have run: "runState U StInsideAction l = lexRawQuote l1"
    using lexInsideAction_backquote [OF d] by (simp add: l1_def)
  have ne: "notEmpty (fst (lexRawQuote l1))" by (rule lexRawQuote_notEmpty)
  have nx: "nextItem U l = (fst (lexRawQuote l1), (snd (snd (lexRawQuote l1)))\<lparr>nextState := fst (snd (lexRawQuote l1))\<rparr>)"
  proof (rule nextItem_step [OF st])
    show "runState U StInsideAction l
        = (fst (lexRawQuote l1), fst (snd (lexRawQuote l1)), snd (snd (lexRawQuote l1)))"
      by (simp only: run prod.collapse)
    show "fst (snd (lexRawQuote l1)) = None \<or> notEmpty (fst (lexRawQuote l1))"
      using ne by blast
  qed
  have a: "ityp (fst (nextItem U l)) = itemError
          \<and> val (fst (nextItem U l)) = ''unterminated raw quoted string''
          \<and> args (fst (nextItem U l)) = []
          \<and> nextState (snd (nextItem U l)) = None" if "CHR 0x60 \<notin> set rest"
  proof -
    from rawLoop_missing [OF that, of 0 0 "line l"] obtain i' ln'
      where "rawLoop (runes 0 rest) 0 (line l) = (i', False, ln')" by blast
    then have "lexRawQuote l1 = (errorf (l1\<lparr>line := ln'\<rparr>) ''unterminated raw quoted string'' [], None, l1\<lparr>line := ln'\<rparr>)"
      unfolding lexRawQuote_def by (simp add: rest l1(5) Let_def)
    then show ?thesis by (simp add: nx errorf_def)
  qed
  have b: "ityp (fst (nextItem U l)) = itemRawString
          \<and> ipos (fst (nextItem U l)) = start l
          \<and> iline (fst (nextItem U l)) = startLine l
          \<and> val (fst (nextItem U l)) = slice (input l) (start l) (pos l + length body + 2)
          \<and> (start l = pos l \<longrightarrow> val (fst (nextItem U l)) = CHR 0x60 # body @ [CHR 0x60])
          \<and> pos (snd (nextItem U l)) = pos l + length body + 2
          \<and> nextState (snd (nextItem U l)) = Some StInsideAction"
    if r: "rest = body @ CHR 0x60 # tail" and nb: "CHR 0x60 \<notin> set body" for body tail
  proof -
    from rawLoop_found [OF nb, of 0 tail 0 "line l"] obtain ln'
      where "rawLoop (runes 0 rest) 0 (line l) = (length body, True, ln')" using r by auto
    then have lr: "lexRawQuote l1 = emitThen itemRawString (Some StInsideAction)
        (l1\<lparr>line := ln', width := 1, pos := pos l1 + length body + 1\<rparr>)"
      unfolding lexRawQuote_def by (simp add: rest l1(5) Let_def)
    have sl: "slice (input l) (pos l) (pos l + length body + 2) = CHR 0x60 # body @ [CHR 0x60]"
      using d r by (simp add: slice_def)
    have p: "pos l1 + length body + 1 = pos l + length body + 2" by (simp add: l1)
    show ?thesis using sl by (auto simp: nx lr p l1 emitThen_def emit_def)
  qed
  from a b show ?thesis by blast
qed

theorem raw_quote_witness:
  "nextState (afterItems noUnicode 1 (lex_new [] [CHR 0x60, CHR ''a'', CHR 0x0A, CHR ''b'', CHR 0x60] False))
     = Some StInsideAction
   \<and> ityp (fst (nextItem noUnicode
        (afterItems noUnicode 1 (lex_new [] [CHR 0x60, CHR ''a'', CHR 0x0A, CHR ''b'', CHR 0x60] False))))
       = itemRawString
   \<and> val (fst (nextItem noUnicode
        (afterItems noUnicode 1 (lex_new [] [CHR 0x60, CHR ''a'', CHR 0x0A, CHR ''b'', CHR 0x60] False))))
       = [CHR 0x60, CHR ''a'', CHR 0x0A, CHR ''b'', CHR 0x60]
   \<and> iline (fst (nextItem noUnicode
        (afterItems noUnicode 1 (lex_new [] [CHR 0x60, CHR ''a'', CHR 0x0A, CHR ''b'', CHR 0x60] False))))
       = 1
   \<and> nextState (afterItems noUnicode 1 (lex_new [] [CHR 0x60, CHR ''x'', CHR ''x''] False))
     = Some StInsideAction
   \<and> ityp (fst (nextItem noUnicode
        (afterItems noUnicode 1 (lex_new [] [CHR 0x60, CHR ''x'', CHR ''x''] False))))
       = itemError
   \<and> val (fst (nextItem noUnicode
        (afterItems noUnicode 1 (lex_new [] [CHR 0x60, CHR ''x'', CHR ''x''] False))))
       = ''unterminated raw quoted string''"
proof -
  define l where
    "l = afterItems noUnicode 1 (lex_new [] [CHR 0x60, CHR ''a'', CHR 0x0A, CHR ''b'', CHR 0x60] False)"
  define e where "e = afterItems noUnicode 1 (lex_new [] [CHR 0x60, CHR ''x'', CHR ''x''] False)"
  have st: "nextState l = Some StInsideAction" unfolding l_def by code_simp
  have d: "drop (pos l) (input l) = CHR 0x60 # [CHR ''a'', CHR 0x0A, CHR ''b'', CHR 0x60]"
    unfolding l_def by code_simp
  have s: "start l = pos l" and sl: "startLine l = 1" unfolding l_def by code_simp+
  have ste: "nextState e = Some StInsideAction" unfolding e_def by code_simp
  have de: "drop (pos e) (input e) = CHR 0x60 # [CHR ''x'', CHR ''x'']"
    unfolding e_def by code_simp
  from raw_quote [OF st d, of noUnicode, THEN conjunct2, rule_format,
      of "[CHR ''a'', CHR 0x0A, CHR ''b'']" "[]"] s sl
  have 1: "ityp (fst (nextItem noUnicode l)) = itemRawString
      \<and> val (fst (nextItem noUnicode l)) = [CHR 0x60, CHR ''a'', CHR 0x0A, CHR ''b'', CHR 0x60]
      \<and> iline (fst (nextItem noUnicode l)) = 1"
    by (simp del: One_nat_def) metis
  from raw_quote [OF ste de, of noUnicode, THEN conjunct1]
  have 2: "ityp (fst (nextItem noUnicode e)) = itemError
      \<and> val (fst (nextItem noUnicode e)) = ''unterminated raw quoted string''"
    by simp
  from 1 2 st ste show ?thesis unfolding l_def e_def by blast
qed

section \<open>Terminators after names\<close>



section \<open>What may follow a number\<close>




section \<open>Comment lines\<close>




end
